theory Spec2Isabelle
  imports Main "HOL-Library.Sublist" "HOL-Library.Product_Lexorder"
begin

section \<open>Strings\<close>

text \<open>
  Python strings are modelled as \<^typ>\<open>string\<close>, with characters read as the code points
  0 to 255. \<open>str.isspace\<close> holds on exactly these code points of that range:
  U+0009 to U+000D, U+001C to U+0020, U+0085 and U+00A0.
\<close>

definition isspace :: "char \<Rightarrow> bool" where
  "isspace c \<longleftrightarrow>
     c = CHR 0x09 \<or> c = CHR 0x0A \<or> c = CHR 0x0B \<or> c = CHR 0x0C \<or> c = CHR 0x0D \<or>
     c = CHR 0x1C \<or> c = CHR 0x1D \<or> c = CHR 0x1E \<or> c = CHR 0x1F \<or> c = CHR 0x20 \<or>
     c = CHR 0x85 \<or> c = CHR 0xA0"

text \<open>
  \<open>s.split()\<close> with no argument: runs of whitespace separate the words, and leading and
  trailing whitespace gives no empty word. The first argument is the word being read.
\<close>

fun split_from :: "string \<Rightarrow> string \<Rightarrow> string list" where
  "split_from w [] = (if w = [] then [] else [w])"
| "split_from w (c # cs) =
     (if isspace c then (if w = [] then split_from [] cs else w # split_from [] cs)
      else split_from (w @ [c]) cs)"

definition str_split :: "string \<Rightarrow> string list" where
  "str_split s = split_from [] s"

text \<open>\<open>sep.join(xs)\<close>.\<close>

fun str_join :: "string \<Rightarrow> string list \<Rightarrow> string" where
  "str_join sep [] = []"
| "str_join sep [x] = x"
| "str_join sep (x # y # ys) = x @ sep @ str_join sep (y # ys)"

text \<open>\<open>s.strip()\<close> with no argument removes leading and trailing whitespace.\<close>

definition str_strip :: "string \<Rightarrow> string" where
  "str_strip s = rev (dropWhile isspace (rev (dropWhile isspace s)))"

text \<open>
  The slice \<open>xs[i:j]\<close> for indices \<open>0 \<le> i\<close> and \<open>0 \<le> j\<close>: it is empty when \<open>j \<le> i\<close> and
  stops at the end of the list.
\<close>

definition slice :: "'a list \<Rightarrow> nat \<Rightarrow> nat \<Rightarrow> 'a list" where
  "slice xs i j = take (j - i) (drop i xs)"

section \<open>The sequence matcher of the diff engine\<close>

text \<open>
  \<open>get_text_diff_v2_highlight\<close> calls \<open>SequenceMatcher(None, a_words, b_words)\<close> of Python's
  \<open>difflib\<close> and reads its \<open>get_opcodes()\<close>. The matcher is embedded here as CPython
  defines it, for \<open>isjunk = None\<close> and the default \<open>autojunk = True\<close>.

  \<open>__chain_b\<close> first maps every element of \<open>b\<close> to the ascending list of the indices where
  it occurs.
\<close>

type_synonym 'a b2j = "'a \<rightharpoonup> nat list"

definition b2j_add :: "nat \<times> 'a \<Rightarrow> 'a b2j \<Rightarrow> 'a b2j" where
  "b2j_add p m =
     (case p of (i, elt) \<Rightarrow> m(elt \<mapsto> (case m elt of None \<Rightarrow> [] | Some indices \<Rightarrow> indices) @ [i]))"

definition b2j_all :: "'a list \<Rightarrow> 'a b2j" where
  "b2j_all b = fold b2j_add (enumerate 0 b) Map.empty"

text \<open>
  With \<open>isjunk = None\<close> no element is junk. When \<open>b\<close> has at least 200 elements, an element
  that occurs more than \<open>n // 100 + 1\<close> times is popular, and its entry is deleted.
\<close>

definition isbjunk :: "'a \<Rightarrow> bool" where
  "isbjunk x = False"

definition bpopular :: "'a list \<Rightarrow> 'a \<Rightarrow> bool" where
  "bpopular b elt \<longleftrightarrow>
     200 \<le> length b \<and>
     (case b2j_all b elt of None \<Rightarrow> False | Some idxs \<Rightarrow> length b div 100 + 1 < length idxs)"

definition chain_b :: "'a list \<Rightarrow> 'a b2j" where
  "chain_b b = (\<lambda>elt. if bpopular b elt then None else b2j_all b elt)"

text \<open>\<open>b2j.get(x, nothing)\<close>, where \<open>nothing\<close> is the empty list.\<close>

definition b2j_get :: "'a b2j \<Rightarrow> 'a \<Rightarrow> nat list" where
  "b2j_get m x = (case m x of None \<Rightarrow> [] | Some indices \<Rightarrow> indices)"

text \<open>
  \<open>find_longest_match\<close>. The state of its loops is \<open>(besti, bestj, bestsize)\<close>; \<open>j2len\<close> maps
  \<open>j\<close> to the length of the longest match that ends with \<open>a[i-1]\<close> and \<open>b[j]\<close>.
  \<open>j2len.get(j-1, 0)\<close> is 0 for \<open>j = 0\<close>, since no key is negative. The indices are natural
  numbers: \<open>i-k+1\<close> is written \<open>Suc i - k\<close>, which is the same number because \<open>k \<le> i + 1\<close>
  (and \<open>k \<le> j + 1\<close>) whenever the assignment runs.
\<close>

type_synonym match = "nat \<times> nat \<times> nat"

definition j2lenget :: "(nat \<rightharpoonup> nat) \<Rightarrow> nat \<Rightarrow> nat" where
  "j2lenget j2len j = (if j = 0 then 0 else case j2len (j - 1) of None \<Rightarrow> 0 | Some k \<Rightarrow> k)"

text \<open>The inner loop \<open>for j in b2j.get(a[i], nothing)\<close>, with its \<open>continue\<close> and \<open>break\<close>.\<close>

fun flm_inner ::
  "(nat \<rightharpoonup> nat) \<Rightarrow> nat \<Rightarrow> nat \<Rightarrow> nat \<Rightarrow> nat list \<Rightarrow> (nat \<rightharpoonup> nat) \<times> match \<Rightarrow> (nat \<rightharpoonup> nat) \<times> match"
where
  "flm_inner j2len i blo bhi [] st = st"
| "flm_inner j2len i blo bhi (j # js) (newj2len, besti, bestj, bestsize) =
     (if j < blo then flm_inner j2len i blo bhi js (newj2len, besti, bestj, bestsize)
      else if bhi \<le> j then (newj2len, besti, bestj, bestsize)
      else
        (let k = j2lenget j2len j + 1 in
         if bestsize < k
         then flm_inner j2len i blo bhi js (newj2len(j \<mapsto> k), Suc i - k, Suc j - k, k)
         else flm_inner j2len i blo bhi js (newj2len(j \<mapsto> k), besti, bestj, bestsize)))"

text \<open>The outer loop \<open>for i in range(alo, ahi)\<close>, over the list of its indices.\<close>

fun flm_outer ::
  "'a list \<Rightarrow> 'a b2j \<Rightarrow> nat \<Rightarrow> nat \<Rightarrow> nat list \<Rightarrow> (nat \<rightharpoonup> nat) \<times> match \<Rightarrow> (nat \<rightharpoonup> nat) \<times> match"
where
  "flm_outer a b2j blo bhi [] st = st"
| "flm_outer a b2j blo bhi (i # is) (j2len, best) =
     flm_outer a b2j blo bhi is
       (flm_inner j2len i blo bhi (b2j_get b2j (a ! i)) (Map.empty, best))"

text \<open>
  The two pairs of \<open>while\<close> loops that extend the match at both ends: first over elements
  that are not junk (\<open>junk = False\<close>), then over junk (\<open>junk = True\<close>).
\<close>

fun extend_down :: "bool \<Rightarrow> 'a list \<Rightarrow> 'a list \<Rightarrow> nat \<Rightarrow> nat \<Rightarrow> match \<Rightarrow> match" where
  "extend_down junk a b alo blo (besti, bestj, bestsize) =
     (if alo < besti \<and> blo < bestj \<and> isbjunk (b ! (bestj - 1)) = junk \<and>
         a ! (besti - 1) = b ! (bestj - 1)
      then extend_down junk a b alo blo (besti - 1, bestj - 1, bestsize + 1)
      else (besti, bestj, bestsize))"

function extend_up :: "bool \<Rightarrow> 'a list \<Rightarrow> 'a list \<Rightarrow> nat \<Rightarrow> nat \<Rightarrow> match \<Rightarrow> match" where
  "extend_up junk a b ahi bhi (besti, bestj, bestsize) =
     (if besti + bestsize < ahi \<and> bestj + bestsize < bhi \<and>
         isbjunk (b ! (bestj + bestsize)) = junk \<and>
         a ! (besti + bestsize) = b ! (bestj + bestsize)
      then extend_up junk a b ahi bhi (besti, bestj, bestsize + 1)
      else (besti, bestj, bestsize))"
  by pat_completeness auto
termination
  by (relation "measure (\<lambda>(junk, a, b, ahi, bhi, besti, bestj, bestsize). ahi - (besti + bestsize))")
    auto

definition find_longest_match ::
  "'a list \<Rightarrow> 'a list \<Rightarrow> 'a b2j \<Rightarrow> nat \<Rightarrow> nat \<Rightarrow> nat \<Rightarrow> nat \<Rightarrow> match" where
  "find_longest_match a b b2j alo ahi blo bhi =
     (let best0 = snd (flm_outer a b2j blo bhi [alo..<ahi] (Map.empty, alo, blo, 0));
          best1 = extend_down False a b alo blo best0;
          best2 = extend_up False a b ahi bhi best1;
          best3 = extend_down True a b alo blo best2
      in extend_up True a b ahi bhi best3)"

subsection \<open>Where the longest match lies\<close>

text \<open>
  The result of \<open>find_longest_match\<close> stays inside the rectangle it searched; the work
  list of \<open>get_matching_blocks\<close> terminates because of it.
\<close>

definition flm_best_inv :: "nat \<Rightarrow> nat \<Rightarrow> nat \<Rightarrow> nat \<Rightarrow> match \<Rightarrow> bool" where
  "flm_best_inv alo ahi blo bhi m =
     (case m of (i, j, k) \<Rightarrow>
        alo \<le> i \<and> blo \<le> j \<and>
        (if k = 0 then i = alo \<and> j = blo else i + k \<le> ahi \<and> j + k \<le> bhi))"

definition j2len_inv :: "nat \<Rightarrow> nat \<Rightarrow> nat \<Rightarrow> nat \<Rightarrow> (nat \<rightharpoonup> nat) \<Rightarrow> bool" where
  "j2len_inv alo blo bhi i m =
     (\<forall>j k. m j = Some k \<longrightarrow> blo \<le> j \<and> j < bhi \<and> 0 < k \<and> k + alo \<le> i \<and> k + blo \<le> Suc j)"

lemma j2lenget_bound:
  assumes "j2len_inv alo blo bhi i m" "blo \<le> j" "alo \<le> i"
  shows "j2lenget m j + 1 + alo \<le> Suc i \<and> j2lenget m j + 1 + blo \<le> Suc j"
proof (cases "j = 0")
  case True
  then show ?thesis using assms by (simp add: j2lenget_def)
next
  case False
  show ?thesis
  proof (cases "m (j - 1)")
    case None
    then show ?thesis using False assms by (simp add: j2lenget_def)
  next
    case (Some k)
    with assms(1) have "k + alo \<le> i" "k + blo \<le> Suc (j - 1)"
      unfolding j2len_inv_def by blast+
    then show ?thesis using False Some by (simp add: j2lenget_def)
  qed
qed

lemma flm_inner_inv:
  assumes "j2len_inv alo blo bhi i j2len" "alo \<le> i" "i < ahi"
    and "j2len_inv alo blo bhi (Suc i) (fst st)" "flm_best_inv alo ahi blo bhi (snd st)"
  shows "j2len_inv alo blo bhi (Suc i) (fst (flm_inner j2len i blo bhi js st)) \<and>
         flm_best_inv alo ahi blo bhi (snd (flm_inner j2len i blo bhi js st))"
  using assms(4,5)
proof (induction js arbitrary: st)
  case Nil
  then show ?case by simp
next
  case (Cons j js)
  obtain n bi bj bs where st: "st = (n, bi, bj, bs)" by (cases st) auto
  show ?case
  proof (cases "j < blo")
    case True
    then show ?thesis using Cons st by simp
  next
    case nlt: False
    show ?thesis
    proof (cases "bhi \<le> j")
      case True
      then show ?thesis using Cons.prems st nlt by simp
    next
      case False
      then have jb: "blo \<le> j" "j < bhi" using nlt by auto
      define k where "k = j2lenget j2len j + 1"
      from j2lenget_bound[OF assms(1) jb(1) assms(2)]
      have kb: "k + alo \<le> Suc i" "k + blo \<le> Suc j" by (auto simp: k_def)
      have kpos: "0 < k" by (simp add: k_def)
      have n': "j2len_inv alo blo bhi (Suc i) (n(j \<mapsto> k))"
        using Cons.prems(1) kb jb kpos unfolding j2len_inv_def st by auto
      have b': "flm_best_inv alo ahi blo bhi (Suc i - k, Suc j - k, k)"
        using kb jb assms(3) kpos unfolding flm_best_inv_def by auto
      have b0: "flm_best_inv alo ahi blo bhi (bi, bj, bs)"
        using Cons.prems(2) st by simp
      show ?thesis
      proof (cases "bs < k")
        case True
        have "flm_inner j2len i blo bhi (j # js) st =
              flm_inner j2len i blo bhi js (n(j \<mapsto> k), Suc i - k, Suc j - k, k)"
          using True nlt False st by (simp add: k_def Let_def)
        moreover have "j2len_inv alo blo bhi (Suc i) (fst (n(j \<mapsto> k), Suc i - k, Suc j - k, k))"
          "flm_best_inv alo ahi blo bhi (snd (n(j \<mapsto> k), Suc i - k, Suc j - k, k))"
          using n' b' by (simp_all only: fst_conv snd_conv)
        ultimately show ?thesis
          using Cons.IH by presburger
      next
        case nb: False
        have "flm_inner j2len i blo bhi (j # js) st =
              flm_inner j2len i blo bhi js (n(j \<mapsto> k), bi, bj, bs)"
          using nb nlt False st by (simp add: k_def Let_def)
        moreover have "j2len_inv alo blo bhi (Suc i) (fst (n(j \<mapsto> k), bi, bj, bs))"
          "flm_best_inv alo ahi blo bhi (snd (n(j \<mapsto> k), bi, bj, bs))"
          using n' b0 by (simp_all only: fst_conv snd_conv)
        ultimately show ?thesis
          using Cons.IH by presburger
      qed
    qed
  qed
qed

lemma flm_outer_inv:
  assumes "alo \<le> i0" "j2len_inv alo blo bhi i0 (fst st)" "flm_best_inv alo ahi blo bhi (snd st)"
  shows "flm_best_inv alo ahi blo bhi (snd (flm_outer a b2j blo bhi [i0..<ahi] st))"
  using assms
proof (induction "ahi - i0" arbitrary: i0 st)
  case 0
  then show ?case by simp
next
  case (Suc n)
  then have lt: "i0 < ahi" by simp
  obtain m best where st: "st = (m, best)" by (cases st) auto
  define st' where "st' = flm_inner m i0 blo bhi (b2j_get b2j (a ! i0)) (Map.empty, best)"
  have e: "j2len_inv alo blo bhi (Suc i0) (fst (Map.empty :: nat \<rightharpoonup> nat, best))"
    by (simp add: j2len_inv_def)
  have m: "j2len_inv alo blo bhi i0 m" and bst: "flm_best_inv alo ahi blo bhi (snd (Map.empty :: nat \<rightharpoonup> nat, best))"
    using Suc.prems st by simp_all
  have inner: "j2len_inv alo blo bhi (Suc i0) (fst st') \<and> flm_best_inv alo ahi blo bhi (snd st')"
    unfolding st'_def by (rule flm_inner_inv[OF m Suc.prems(1) lt e bst])
  have "n = ahi - Suc i0" using Suc.hyps(2) by simp
  then have "flm_best_inv alo ahi blo bhi (snd (flm_outer a b2j blo bhi [Suc i0..<ahi] st'))"
    using Suc.hyps(1)[of "Suc i0" st'] Suc.prems(1) inner by simp
  moreover have "flm_outer a b2j blo bhi [i0..<ahi] st = flm_outer a b2j blo bhi [Suc i0..<ahi] st'"
    using upt_conv_Cons[OF lt] st by (simp add: st'_def)
  ultimately show ?case by simp
qed

declare extend_down.simps [simp del] extend_up.simps [simp del]

lemma extend_down_inv:
  "flm_best_inv alo ahi blo bhi m \<Longrightarrow> flm_best_inv alo ahi blo bhi (extend_down junk a b alo blo m)"
proof (induction junk a b alo blo m rule: extend_down.induct)
  case (1 junk a b alo blo besti bestj bestsize)
  show ?case
  proof (cases "alo < besti \<and> blo < bestj \<and> isbjunk (b ! (bestj - 1)) = junk \<and>
         a ! (besti - 1) = b ! (bestj - 1)")
    case True
    have "flm_best_inv alo ahi blo bhi (besti - 1, bestj - 1, bestsize + 1)"
      using True "1.prems" unfolding flm_best_inv_def by (auto split: if_splits)
    then have "flm_best_inv alo ahi blo bhi
        (extend_down junk a b alo blo (besti - 1, bestj - 1, bestsize + 1))"
      using "1.IH" True by blast
    then show ?thesis using True by (subst extend_down.simps) simp
  next
    case False
    then show ?thesis using "1.prems" by (subst extend_down.simps) auto
  qed
qed

lemma extend_up_inv:
  "flm_best_inv alo ahi blo bhi m \<Longrightarrow> flm_best_inv alo ahi blo bhi (extend_up junk a b ahi bhi m)"
proof (induction junk a b ahi bhi m rule: extend_up.induct)
  case (1 junk a b ahi bhi besti bestj bestsize)
  show ?case
  proof (cases "besti + bestsize < ahi \<and> bestj + bestsize < bhi \<and>
         isbjunk (b ! (bestj + bestsize)) = junk \<and>
         a ! (besti + bestsize) = b ! (bestj + bestsize)")
    case True
    have "flm_best_inv alo ahi blo bhi (besti, bestj, bestsize + 1)"
      using True "1.prems" unfolding flm_best_inv_def by (auto split: if_splits)
    then have "flm_best_inv alo ahi blo bhi (extend_up junk a b ahi bhi (besti, bestj, bestsize + 1))"
      using "1.IH" True by blast
    then show ?thesis using True by (subst extend_up.simps) simp
  next
    case False
    then show ?thesis using "1.prems" by (subst extend_up.simps) auto
  qed
qed

lemma find_longest_match_inv:
  "flm_best_inv alo ahi blo bhi (find_longest_match a b b2j alo ahi blo bhi)"
proof -
  have "flm_best_inv alo ahi blo bhi (snd (flm_outer a b2j blo bhi [alo..<ahi] (Map.empty, alo, blo, 0)))"
    by (rule flm_outer_inv) (simp_all add: j2len_inv_def flm_best_inv_def)
  then show ?thesis
    unfolding find_longest_match_def Let_def
    by (intro extend_up_inv extend_down_inv)
qed

subsection \<open>Matching blocks and opcodes\<close>

text \<open>
  \<open>get_matching_blocks\<close>: the \<open>while queue\<close> loop. \<open>queue.pop()\<close> takes the last
  element and \<open>queue.append\<close> adds at the end, so the head of the list below is the end
  of Python's list: of the two rectangles appended, the one to the right of the match
  is appended last and lies on top.
\<close>

type_synonym rect = "nat \<times> nat \<times> nat \<times> nat"

definition queue_weight :: "rect list \<Rightarrow> nat" where
  "queue_weight queue = sum_list (map (\<lambda>(alo, ahi, blo, bhi). 2 * (ahi - alo) + 1) queue)"

function mb_loop :: "'a list \<Rightarrow> 'a list \<Rightarrow> 'a b2j \<Rightarrow> rect list \<Rightarrow> match list \<Rightarrow> match list" where
  "mb_loop a b b2j [] matching_blocks = matching_blocks"
| "mb_loop a b b2j ((alo, ahi, blo, bhi) # queue) matching_blocks =
     (case find_longest_match a b b2j alo ahi blo bhi of
        (i, j, k) \<Rightarrow>
          if k \<noteq> 0
          then mb_loop a b b2j
                 ((if i + k < ahi \<and> j + k < bhi then [(i + k, ahi, j + k, bhi)] else []) @
                  (if alo < i \<and> blo < j then [(alo, i, blo, j)] else []) @ queue)
                 (matching_blocks @ [(i, j, k)])
          else mb_loop a b b2j queue matching_blocks)"
  by pat_completeness auto
termination
proof (relation "measure (\<lambda>(a, b, b2j, queue, matching_blocks). queue_weight queue)")
  show "wf (measure (\<lambda>(a, b, b2j, queue, matching_blocks). queue_weight queue))"
    by simp
next
  fix a b :: "'a list" and b2j :: "'a b2j" and alo ahi blo bhi queue
    and matching_blocks :: "match list" and i y j k
  assume x: "(i, y) = find_longest_match a b b2j alo ahi blo bhi" "(j, k) = y"
    and k: "k \<noteq> 0"
  have "flm_best_inv alo ahi blo bhi (i, j, k)"
    using find_longest_match_inv[of alo ahi blo bhi a b b2j] x by simp
  then have "alo \<le> i" "i + k \<le> ahi"
    using k by (simp_all add: flm_best_inv_def)
  then show "((a, b, b2j,
        (if i + k < ahi \<and> j + k < bhi then [(i + k, ahi, j + k, bhi)] else []) @
        (if alo < i \<and> blo < j then [(alo, i, blo, j)] else []) @ queue,
        matching_blocks @ [(i, j, k)]),
       (a, b, b2j, (alo, ahi, blo, bhi) # queue, matching_blocks))
      \<in> measure (\<lambda>(a, b, b2j, queue, matching_blocks). queue_weight queue)"
    using k by (auto simp: queue_weight_def)
next
  fix a b :: "'a list" and b2j :: "'a b2j" and alo ahi blo bhi queue
    and matching_blocks :: "match list"
  show "((a, b, b2j, queue, matching_blocks),
       (a, b, b2j, (alo, ahi, blo, bhi) # queue, matching_blocks))
      \<in> measure (\<lambda>(a, b, b2j, queue, matching_blocks). queue_weight queue)"
    by (simp add: queue_weight_def)
qed

text \<open>
  The second loop of \<open>get_matching_blocks\<close> collapses adjacent blocks. Its state is the
  block \<open>(i1, j1, k1)\<close> and the list \<open>non_adjacent\<close>; the first equation includes the
  \<open>if k1:\<close> that follows the loop.
\<close>

fun collapse :: "match \<Rightarrow> match list \<Rightarrow> match list \<Rightarrow> match list" where
  "collapse (i1, j1, k1) [] non_adjacent =
     (if k1 \<noteq> 0 then non_adjacent @ [(i1, j1, k1)] else non_adjacent)"
| "collapse (i1, j1, k1) ((i2, j2, k2) # rest) non_adjacent =
     (if i1 + k1 = i2 \<and> j1 + k1 = j2 then collapse (i1, j1, k1 + k2) rest non_adjacent
      else collapse (i2, j2, k2) rest
             (if k1 \<noteq> 0 then non_adjacent @ [(i1, j1, k1)] else non_adjacent))"

text \<open>
  \<open>matching_blocks.sort()\<close> sorts the triples lexicographically, which is the order of
  \<^typ>\<open>match\<close> here.
\<close>

definition get_matching_blocks :: "'a list \<Rightarrow> 'a list \<Rightarrow> match list" where
  "get_matching_blocks a b =
     (let la = length a; lb = length b;
          matching_blocks = mb_loop a b (chain_b b) [(0, la, 0, lb)] []
      in collapse (0, 0, 0) (sort matching_blocks) [] @ [(la, lb, 0)])"

text \<open>\<open>get_opcodes\<close>: an opcode is \<open>(tag, i1, i2, j1, j2)\<close>, the tag a string as in Python.\<close>

type_synonym opcode = "string \<times> nat \<times> nat \<times> nat \<times> nat"

fun opcodes_loop :: "nat \<Rightarrow> nat \<Rightarrow> match list \<Rightarrow> opcode list \<Rightarrow> opcode list" where
  "opcodes_loop i j [] answer = answer"
| "opcodes_loop i j ((ai, bj, size') # rest) answer =
     (let tag = (if i < ai \<and> j < bj then ''replace''
                 else if i < ai then ''delete''
                 else if j < bj then ''insert''
                 else []);
          answer1 = (if tag \<noteq> [] then answer @ [(tag, i, ai, j, bj)] else answer);
          i' = ai + size'; j' = bj + size';
          answer2 = (if size' \<noteq> 0 then answer1 @ [(''equal'', ai, i', bj, j')] else answer1)
      in opcodes_loop i' j' rest answer2)"

definition get_opcodes :: "'a list \<Rightarrow> 'a list \<Rightarrow> opcode list" where
  "get_opcodes a b = opcodes_loop 0 0 (get_matching_blocks a b) []"

section \<open>The diff highlight function\<close>

text \<open>
  The body of the loop over the opcodes in \<open>get_text_diff_v2_highlight\<close>, on the state
  \<open>(a_hl, b_hl)\<close>, and the loop.
\<close>

definition highlight_step ::
  "string list \<Rightarrow> string list \<Rightarrow> opcode \<Rightarrow> string list \<times> string list
     \<Rightarrow> string list \<times> string list"
where
  "highlight_step a_words b_words opc hl =
     (case (opc, hl) of ((tag, i1, i2, j1, j2), (a_hl, b_hl)) \<Rightarrow>
        if tag = ''equal'' then (a_hl @ slice a_words i1 i2, b_hl @ slice b_words j1 j2)
        else if tag = ''delete''
        then (a_hl @ [''<del>'' @ str_join '' '' (slice a_words i1 i2) @ ''</del>''], b_hl)
        else if tag = ''insert''
        then (a_hl, b_hl @ [''<ins>'' @ str_join '' '' (slice b_words j1 j2) @ ''</ins>''])
        else if tag = ''replace''
        then (a_hl @ [''<del>'' @ str_join '' '' (slice a_words i1 i2) @ ''</del>''],
              b_hl @ [''<ins>'' @ str_join '' '' (slice b_words j1 j2) @ ''</ins>''])
        else (a_hl, b_hl))"

fun highlight_loop ::
  "string list \<Rightarrow> string list \<Rightarrow> opcode list \<Rightarrow> string list \<times> string list
     \<Rightarrow> string list \<times> string list"
where
  "highlight_loop a_words b_words [] hl = hl"
| "highlight_loop a_words b_words (opc # ops) hl =
     highlight_loop a_words b_words ops (highlight_step a_words b_words opc hl)"

definition get_text_diff_v2_highlight :: "string \<Rightarrow> string \<Rightarrow> string \<times> string" where
  "get_text_diff_v2_highlight a b =
     (let a_words = str_split a; b_words = str_split b;
          (a_hl, b_hl) = highlight_loop a_words b_words (get_opcodes a_words b_words) ([], [])
      in (str_join '' '' a_hl, str_join '' '' b_hl))"

section \<open>Session state and widgets\<close>

text \<open>
  The values that entries and the session state hold are JSON values; Python's \<open>None\<close> is
  \<open>JNull\<close>. A dictionary read from JSON keeps the order of its keys, so an entry is an
  association list. Numbers are carried along and never inspected.
\<close>

datatype json =
  JNull | JBool bool | JNum int | JStr string | JArr "json list" | JObj "(string \<times> json) list"

type_synonym entry = "(string \<times> json) list"

text \<open>Python's truth value of an object, as \<open>if x:\<close> and \<open>x and y\<close> take it.\<close>

fun truthy :: "json \<Rightarrow> bool" where
  "truthy JNull = False"
| "truthy (JBool b) = b"
| "truthy (JNum n) = (n \<noteq> 0)"
| "truthy (JStr s) = (s \<noteq> [])"
| "truthy (JArr xs) = (xs \<noteq> [])"
| "truthy (JObj kvs) = (kvs \<noteq> [])"

text \<open>\<open>d[k] = v\<close> on a dictionary: an existing key keeps its place, a new key comes last.\<close>

fun dict_set :: "string \<Rightarrow> json \<Rightarrow> entry \<Rightarrow> entry" where
  "dict_set k v [] = [(k, v)]"
| "dict_set k v ((k', v') # kvs) =
     (if k' = k then (k, v) # kvs else (k', v') # dict_set k v kvs)"

text \<open>\<open>d.setdefault(k, v)\<close> on a dictionary.\<close>

definition dict_setdefault :: "string \<Rightarrow> json \<Rightarrow> entry \<Rightarrow> entry" where
  "dict_setdefault k v d = (case map_of d k of None \<Rightarrow> d @ [(k, v)] | Some _ \<Rightarrow> d)"

text \<open>
  \<open>st.session_state\<close> is a dictionary from string keys to values. The keys \<open>entries\<close>,
  \<open>entries_by_uid\<close>, \<open>uids\<close>, \<open>current_uid\<close> and \<open>file_processed\<close> of the script are kept
  as fields of \<open>app_state\<close> below; \<open>session_state\<close> holds every other key. None of those
  five names starts with \<open>q\<close>, \<open>claims_\<close> or \<open>review_submitted\<close>, so the two loops of the
  script that delete keys by prefix never touch them.
\<close>

type_synonym session_state = "string \<rightharpoonup> json"

definition ss_get :: "session_state \<Rightarrow> string \<Rightarrow> json" where
  "ss_get ss k = (case ss k of None \<Rightarrow> JNull | Some v \<Rightarrow> v)"

definition setdefault :: "string \<Rightarrow> json \<Rightarrow> session_state \<Rightarrow> session_state" where
  "setdefault k v ss = (case ss k of None \<Rightarrow> ss(k \<mapsto> v) | Some _ \<Rightarrow> ss)"

text \<open>\<open>k.startswith((p1, p2, ...))\<close>: some element of the tuple is a prefix of \<open>k\<close>.\<close>

definition startswith :: "string \<Rightarrow> string list \<Rightarrow> bool" where
  "startswith k ps = list_ex (\<lambda>p. prefix p k) ps"

text \<open>
  \<open>for k in list(st.session_state.keys()): if P(k): del st.session_state[k]\<close>.
\<close>

definition del_keys :: "(string \<Rightarrow> bool) \<Rightarrow> session_state \<Rightarrow> session_state" where
  "del_keys P ss = (\<lambda>k. if P k then None else ss k)"

text \<open>
  The widgets. The script gives every widget of the form a \<open>key\<close>, and Streamlit keeps the
  value of a keyed widget in \<open>st.session_state[key]\<close>: what the user did to the widget is
  in the session state when the run starts, the widget call returns the value stored
  under its key, and a widget whose key is not in the session state yet stores its
  default there. So a widget call is a \<open>setdefault\<close> of its default, and the script reads
  the widget's value from the session state.
  \<^item> \<open>st.checkbox(label, key=k)\<close>: default \<open>False\<close>;
  \<^item> \<open>st.text_input(label, key=k)\<close>: default \<open>""\<close>;
  \<^item> \<open>st.radio(label, options, key=k, index=i)\<close>: default \<open>options[i]\<close>, and \<open>None\<close> (no
    option selected) for \<open>index=None\<close>; the default index is 0.
  A button returns \<open>True\<close> only in the run that its click starts; the click is an input of
  the run.
\<close>

definition st_checkbox :: "string \<Rightarrow> session_state \<Rightarrow> session_state" where
  "st_checkbox key ss = setdefault key (JBool False) ss"

definition st_text_input :: "string \<Rightarrow> session_state \<Rightarrow> session_state" where
  "st_text_input key ss = setdefault key (JStr []) ss"

definition st_radio :: "string list \<Rightarrow> nat option \<Rightarrow> string \<Rightarrow> session_state \<Rightarrow> session_state" where
  "st_radio options index key ss =
     setdefault key (case index of None \<Rightarrow> JNull | Some i \<Rightarrow> JStr (options ! i)) ss"

text \<open>The string that a text input holds.\<close>

fun str_of :: "json \<Rightarrow> string" where
  "str_of (JStr s) = s"
| "str_of _ = []"

datatype button = Submit_review | Go_next | Stay

section \<open>The application state\<close>

record app_state =
  session :: session_state
  entries_by_uid :: "string \<rightharpoonup> entry"
  uids :: "string list"
  current_uid :: string

text \<open>
  The sidebar: \<open>new_selection\<close> is the entry the select box returns. When it differs from
  the current one, the per-review keys are deleted and the current entry changes.
\<close>

definition select_entry :: "string \<Rightarrow> app_state \<Rightarrow> app_state" where
  "select_entry new_selection st =
     (if new_selection \<noteq> current_uid st
      then st\<lparr>session := del_keys (\<lambda>key. startswith key [''q'', ''claims_'', ''review_submitted''])
                             (session st),
              current_uid := new_selection\<rparr>
      else st)"

section \<open>The review form\<close>

text \<open>\<open>st.session_state.setdefault('q1', None)\<close> and the same for \<open>q3\<close>.\<close>

definition init_question_states :: "session_state \<Rightarrow> session_state" where
  "init_question_states ss = setdefault ''q3'' JNull (setdefault ''q1'' JNull ss)"

text \<open>
  The prompts: \<open>entry.get('questions', [...])\<close> and the subscripts \<open>q_texts[0]\<close>,
  \<open>q_texts[1]\<close>, \<open>q_texts[2]\<close>, which raise when the entry brings fewer prompts.
\<close>

datatype error = KeyError | IndexError | TypeError | ValueError | UploadError

definition default_questions :: json where
  "default_questions = JArr
     [JStr ''Question 1: Provided above is a suggested edit for the Wikipedia article. Please identify any errors with the suggested edit (select all that apply)'',
      JStr ''Question 2: Would you (1) accept, (2) accept w/ revision, and (3) reject the suggested edit above?'',
      JStr ''Question 3: Was the human edit placed in the correct section of the Wikipedia page?'']"

definition q_texts :: "entry \<Rightarrow> json" where
  "q_texts entry = (case map_of entry ''questions'' of None \<Rightarrow> default_questions | Some v \<Rightarrow> v)"

fun subscript :: "json \<Rightarrow> nat \<Rightarrow> error + json" where
  "subscript (JArr xs) i = (if i < length xs then Inr (xs ! i) else Inl IndexError)"
| "subscript (JStr s) i = (if i < length s then Inr (JStr [s ! i]) else Inl IndexError)"
| "subscript (JObj kvs) i = Inl KeyError"
| "subscript v i = Inl TypeError"

text \<open>
  Question 1. \<open>q1_options\<close> in the order of the script. The two typographic quotation marks
  in the label of \<open>subjective\<close> (U+201C, U+201D) are beyond the characters of
  \<^typ>\<open>string\<close> and are written with the ASCII quotation mark.
\<close>

definition q1_options :: "(string \<times> string) list" where
  "q1_options =
     [(''style'', ''Stylistic/clarity: Phrasing redundant or tone is too informal''),
      (''minor_fix'', ''Minor factual fix: Small date/number correction needed''),
      (''formatting'', ''Wikipedia Formatting: Text in the human edit is not formatted properly''),
      (''citation'', ''Missing citation(s): One or more facts in the edit lack a reference''),
      (''subjective'',
         ''Subjective: Opinion or superlative without attribution ('' @ [CHR 0x22] @
         ''most unexpected'' @ [CHR 0x22] @ '')''),
      (''duplicate'', ''Duplicate: Overlaps substantially with another accepted fact.''),
      (''insignificant'',
         ''Insignificant: Majority of the edit is not worthy of being included in Wikipedia''),
      (''irrelevant'',
         ''Irrelevant: The facts presented in the edit are not relevant for the entity''),
      (''policy'', ''Policy violation: Conflict with WP:OR, WP:NPOV, etc.''),
      (''other'', ''Other:'')]"

text \<open>\<open>q1_key_prefix = f"q1_{selection[:8]}"\<close>.\<close>

definition q1_key_prefix :: "string \<Rightarrow> string" where
  "q1_key_prefix selection = ''q1_'' @ take 8 selection"

text \<open>
  The loop over the check boxes, with state
  \<open>(session state, selected_q1_options, show_other_text)\<close>.
\<close>

fun q1_checkboxes ::
  "string \<Rightarrow> (string \<times> string) list \<Rightarrow> session_state \<times> string list \<times> bool
     \<Rightarrow> session_state \<times> string list \<times> bool"
where
  "q1_checkboxes pre [] s = s"
| "q1_checkboxes pre ((subkey, label) # rest) (ss, selected_q1_options, show_other_text) =
     (let full_key = pre @ ''_'' @ subkey;
          ss' = st_checkbox full_key ss
      in if truthy (ss_get ss' full_key)
         then q1_checkboxes pre rest
                (ss', selected_q1_options @ [label],
                 if subkey = ''other'' then True else show_other_text)
         else q1_checkboxes pre rest (ss', selected_q1_options, show_other_text))"

text \<open>
  The text input of \<open>Other:\<close> and the assignment to \<open>st.session_state['q1']\<close>. The result is
  the session state and \<open>selected_q1_options\<close>.
\<close>

definition q1_section :: "string \<Rightarrow> session_state \<Rightarrow> session_state \<times> string list" where
  "q1_section selection ss =
     (case q1_checkboxes (q1_key_prefix selection) q1_options (ss, [], False) of
        (ss1, selected, show_other_text) \<Rightarrow>
          let other_input_key = q1_key_prefix selection @ ''_other_text'';
              ss2 = (if show_other_text then st_text_input other_input_key ss1 else ss1);
              other_text = (if show_other_text then str_of (ss_get ss2 other_input_key) else []);
              selected_q1_options =
                (if show_other_text \<and> str_strip other_text \<noteq> []
                 then selected @ [''Other (Please specify reason below): '' @ str_strip other_text]
                 else selected)
          in (ss2(''q1'' \<mapsto> (if selected_q1_options \<noteq> [] then JArr (map JStr selected_q1_options)
                              else JNull)),
              selected_q1_options))"

text \<open>The review that the submit handler assembles from the session state.\<close>

definition review_of :: "session_state \<Rightarrow> entry" where
  "review_of ss =
     [(''q1'', ss_get ss ''q1''), (''q2'', ss_get ss ''q2''), (''q3'', ss_get ss ''q3''),
      (''q3_section'', ss_get ss ''q3_section'')]"

text \<open>
  The submit handler. \<open>upload path entry\<close> stands for the serialisation of the entry and
  \<open>blob.upload_from_file\<close> at \<open>path\<close>: \<open>True\<close> when the call returns, \<open>False\<close> when it raises.
  The script has no \<open>try\<close> around it, so an exception ends the run before
  \<open>st.success\<close> and before \<open>review_submitted\<close> is set. The result is the state, the upload
  calls made, and whether the handler returned.
\<close>

definition submit_review ::
  "(string \<Rightarrow> entry \<Rightarrow> bool) \<Rightarrow> entry \<Rightarrow> app_state \<Rightarrow> app_state \<times> (string \<times> entry) list \<times> bool"
where
  "submit_review upload entry st =
     (let selection = current_uid st;
          review = review_of (session st);
          entry' = dict_set ''review'' (JObj review) entry;
          st1 = st\<lparr>entries_by_uid := (entries_by_uid st)(selection \<mapsto> entry')\<rparr>;
          path = ''test/'' @ selection @ ''.json''
      in if upload path entry'
         then (st1\<lparr>session := (session st1)(''review_submitted'' \<mapsto> JBool True)\<rparr>,
               [(path, entry')], True)
         else (st1, [(path, entry')], False))"

text \<open>\<open>xs.index(x)\<close>: the first index of \<open>x\<close>, and \<open>ValueError\<close> (here \<open>None\<close>) without one.\<close>

fun list_index :: "'a list \<Rightarrow> 'a \<Rightarrow> nat option" where
  "list_index [] x = None"
| "list_index (y # ys) x = (if y = x then Some 0 else map_option Suc (list_index ys x))"

text \<open>
  \<open>next_idx = (uids.index(selection) + 1) % len(uids)\<close> and \<open>next_uid = uids[next_idx]\<close>.
  When \<open>index\<close> returns, \<open>uids\<close> is not empty and \<open>next_idx\<close> is one of its indices.
\<close>

definition next_idx :: "string list \<Rightarrow> string \<Rightarrow> error + nat" where
  "next_idx us selection =
     (case list_index us selection of
        None \<Rightarrow> Inl ValueError
      | Some i \<Rightarrow> Inr ((i + 1) mod length us))"

text \<open>The handler of the button \<open>Go to Next Entry\<close>, before its \<open>st.rerun()\<close>.\<close>

definition go_next :: "string \<Rightarrow> app_state \<Rightarrow> app_state" where
  "go_next next_uid st =
     st\<lparr>session := del_keys (\<lambda>k. startswith k [''q2_'', ''q3'', ''review_submitted''] \<or> k = ''q1'')
                       (session st),
        current_uid := next_uid\<rparr>"

text \<open>
  What a run of the form shows and does: the state it leaves, how it ends (\<open>Rerun\<close> is
  \<open>st.rerun()\<close>, \<open>Raised\<close> an exception that nothing catches, which Streamlit reports on
  the page), the controls it rendered, the upload calls it made, and whether
  \<open>st.success\<close> ran.
\<close>

datatype outcome = Finished | Rerun | Raised error

record run_result =
  final :: app_state
  outcome :: outcome
  q2_shown :: bool
  q3_shown :: bool
  next_shown :: bool
  uploads :: "(string \<times> entry) list"
  success_shown :: bool

definition stopped :: "app_state \<Rightarrow> outcome \<Rightarrow> bool \<Rightarrow> bool \<Rightarrow> run_result" where
  "stopped st out q2 q3 =
     \<lparr>final = st, outcome = out, q2_shown = q2, q3_shown = q3, next_shown = False,
      uploads = [], success_shown = False\<rparr>"

text \<open>
  The part of the run after the submit handler: the next-step buttons, shown when
  \<open>review_submitted\<close> is set. \<open>next_entry['entity_id']\<close> raises \<open>KeyError\<close> for an entry
  without that key.
\<close>

definition next_step ::
  "button option \<Rightarrow> app_state \<Rightarrow> (string \<times> entry) list \<Rightarrow> bool \<Rightarrow> run_result" where
  "next_step clicked st ups success =
     (let shown = \<lparr>final = st, outcome = Finished, q2_shown = True, q3_shown = True,
                  next_shown = False, uploads = ups, success_shown = success\<rparr>
      in if truthy (ss_get (session st) ''review_submitted'')
         then (case next_idx (uids st) (current_uid st) of
                 Inl e \<Rightarrow> shown\<lparr>outcome := Raised e\<rparr>
               | Inr n \<Rightarrow>
                   (case entries_by_uid st (uids st ! n) of
                      None \<Rightarrow> shown\<lparr>outcome := Raised KeyError\<rparr>
                    | Some next_entry \<Rightarrow>
                        (case map_of next_entry ''entity_id'' of
                           None \<Rightarrow> shown\<lparr>outcome := Raised KeyError\<rparr>
                         | Some _ \<Rightarrow>
                             if clicked = Some Go_next
                             then shown\<lparr>final := go_next (uids st ! n) st, outcome := Rerun,
                                       next_shown := True\<rparr>
                             else shown\<lparr>next_shown := True\<rparr>)))
         else shown)"

text \<open>
  A run of the script from \<open># Initialize question states\<close> to its end, for the current
  entry. \<open>clicked\<close> is the button whose click started the run, if any.
\<close>

definition form_run ::
  "(string \<Rightarrow> entry \<Rightarrow> bool) \<Rightarrow> button option \<Rightarrow> app_state \<Rightarrow> run_result" where
  "form_run upload clicked st =
     (case entries_by_uid st (current_uid st) of
        None \<Rightarrow> stopped st (Raised KeyError) False False
      | Some entry \<Rightarrow>
          let st0 = st\<lparr>session := init_question_states (session st)\<rparr> in
          (case subscript (q_texts entry) 0 of
             Inl e \<Rightarrow> stopped st0 (Raised e) False False
           | Inr _ \<Rightarrow>
               let st1 = st0\<lparr>session := fst (q1_section (current_uid st) (session st0))\<rparr> in
               if \<not> truthy (ss_get (session st1) ''q1'') then stopped st1 Finished False False
               else
                 (case subscript (q_texts entry) 1 of
                    Inl e \<Rightarrow> stopped st1 (Raised e) False False
                  | Inr _ \<Rightarrow>
                      let st2 = st1\<lparr>session :=
                                  st_radio [''Accept'', ''Accept w/ Revision'', ''Reject''] None ''q2''
                                    (session st1)\<rparr>
                      in if \<not> truthy (ss_get (session st2) ''q2'') then stopped st2 Finished True False
                         else
                           (case subscript (q_texts entry) 2 of
                              Inl e \<Rightarrow> stopped st2 (Raised e) True False
                            | Inr _ \<Rightarrow>
                                let ss3 = st_radio [''Yes'', ''If No, which section:''] (Some 0) ''q3''
                                            (session st2);
                                    ss4 = (if ss_get ss3 ''q3'' = JStr ''If No, which section:''
                                           then st_text_input ''q3_section'' ss3 else ss3);
                                    st4 = st2\<lparr>session := ss4\<rparr>
                                in if clicked = Some Submit_review
                                   then (case submit_review upload entry st4 of
                                           (st5, ups, returned) \<Rightarrow>
                                             if returned then next_step clicked st5 ups True
                                             else \<lparr>final = st5, outcome = Raised UploadError,
                                                   q2_shown = True, q3_shown = True,
                                                   next_shown = False, uploads = ups,
                                                   success_shown = False\<rparr>)
                                   else next_step clicked st4 [] False))))"

section \<open>Notions for the statements about the form\<close>

text \<open>
  Whether the check box of \<open>subkey\<close> is checked for the entry \<open>selection\<close>, and the text in
  the input of \<open>Other:\<close>, as the session state at the start of a run has them.
\<close>

definition q1_checked :: "session_state \<Rightarrow> string \<Rightarrow> string \<Rightarrow> bool" where
  "q1_checked ss selection subkey = truthy (ss_get ss (q1_key_prefix selection @ ''_'' @ subkey))"

definition q1_other_text :: "session_state \<Rightarrow> string \<Rightarrow> string" where
  "q1_other_text ss selection = str_of (ss_get ss (q1_key_prefix selection @ ''_other_text''))"

text \<open>The current entry is there and brings (or defaults to) the three prompts.\<close>

definition entry_ready :: "app_state \<Rightarrow> entry \<Rightarrow> bool" where
  "entry_ready st entry \<longleftrightarrow>
     entries_by_uid st (current_uid st) = Some entry \<and>
     \<not> isl (subscript (q_texts entry) 0) \<and> \<not> isl (subscript (q_texts entry) 1) \<and>
     \<not> isl (subscript (q_texts entry) 2)"

text \<open>
  Questions 1 and 2 are answered: some issue is selected, and the radio of question 2
  holds an option.
\<close>

definition q1_q2_answered :: "app_state \<Rightarrow> bool" where
  "q1_q2_answered st \<longleftrightarrow>
     snd (q1_section (current_uid st) (init_question_states (session st))) \<noteq> [] \<and>
     truthy (ss_get (session st) ''q2'')"

text \<open>
  The session state that a run has built when it reaches the button \<open>Submit Review\<close>.
\<close>

definition session_at_submit :: "app_state \<Rightarrow> session_state" where
  "session_at_submit st =
     (let ss1 = fst (q1_section (current_uid st) (init_question_states (session st)));
          ss2 = st_radio [''Accept'', ''Accept w/ Revision'', ''Reject''] None ''q2'' ss1;
          ss3 = st_radio [''Yes'', ''If No, which section:''] (Some 0) ''q3'' ss2
      in if ss_get ss3 ''q3'' = JStr ''If No, which section:''
         then st_text_input ''q3_section'' ss3 else ss3)"

text \<open>
  The keys \<open>q3\<close> and \<open>q3_section\<close> hold what the script and the widgets put there: \<open>q3\<close>
  is absent, \<open>None\<close> (from \<open>setdefault\<close>) or an option of the radio, and \<open>q3_section\<close> is
  absent or a string.
\<close>

definition q3_from_widgets :: "session_state \<Rightarrow> bool" where
  "q3_from_widgets ss \<longleftrightarrow>
     (ss ''q3'' = None \<or> ss ''q3'' = Some JNull \<or> ss ''q3'' = Some (JStr ''Yes'') \<or>
      ss ''q3'' = Some (JStr ''If No, which section:'')) \<and>
     (case ss ''q3_section'' of None \<Rightarrow> True | Some v \<Rightarrow> v = JStr (str_of v))"

section \<open>Loading the dataset\<close>

text \<open>
  Both loaders start from the value that \<open>json.load\<close> returns, \<open>raw\<close>.
  \<open>list(raw.values()) if isinstance(raw, dict) else raw\<close> is the list of entries; the loop
  \<open>for index, entry in enumerate(...)\<close> raises \<open>TypeError\<close> on a number, a boolean and
  \<open>null\<close>, and runs over the characters of a string, where \<open>entry.setdefault\<close> raises
  \<open>AttributeError\<close>, as it does on every entry that is not a dictionary. (For the empty
  string the loop does not run and the loader returns it; the script treats it as no
  entries.)
\<close>

datatype load_error = JSONTypeError | AttributeError

definition entries_of :: "json \<Rightarrow> load_error + json list" where
  "entries_of raw =
     (case raw of
        JObj kvs \<Rightarrow> Inr (map snd kvs)
      | JArr xs \<Rightarrow> Inr xs
      | JStr s \<Rightarrow> (if s = [] then Inr [] else Inl AttributeError)
      | _ \<Rightarrow> Inl JSONTypeError)"

text \<open>
  The loop \<open>entry.setdefault('uid', new_uid(index))\<close>. The argument of \<open>setdefault\<close> is
  evaluated for every entry, also for one that has a \<open>uid\<close>.
\<close>

fun assign_uids :: "(nat \<Rightarrow> string) \<Rightarrow> nat \<Rightarrow> json list \<Rightarrow> load_error + entry list" where
  "assign_uids new_uid index [] = Inr []"
| "assign_uids new_uid index (e # es) =
     (case e of
        JObj d \<Rightarrow>
          (case assign_uids new_uid (Suc index) es of
             Inl err \<Rightarrow> Inl err
           | Inr rest \<Rightarrow> Inr (dict_setdefault ''uid'' (JStr (new_uid index)) d # rest))
      | _ \<Rightarrow> Inl AttributeError)"

text \<open>\<open>str(index)\<close>: the decimal digits of a natural number.\<close>

fun str_nat :: "nat \<Rightarrow> string" where
  "str_nat n =
     (if n < 10 then [char_of (48 + n)] else str_nat (n div 10) @ [char_of (48 + n mod 10)])"

declare str_nat.simps [simp del]

text \<open>\<open>load_entries\<close> gives an entry without \<open>uid\<close> its index as the uid.\<close>

definition load_entries :: "json \<Rightarrow> load_error + entry list" where
  "load_entries raw =
     (case entries_of raw of Inl err \<Rightarrow> Inl err | Inr es \<Rightarrow> assign_uids str_nat 0 es)"

text \<open>
  \<open>load_entries_from_file\<close> gives it \<open>str(uuid.uuid4())\<close>, a random token. The randomness
  is an argument of the model: \<open>uuid4 i\<close> is the token that call number \<open>i\<close> of one
  invocation draws. (\<open>st.cache_data\<close> keeps the result of an invocation and returns it
  again for the same uploaded file while the cache lives; an invocation here is one that
  runs the body.)
\<close>

definition load_entries_from_file :: "(nat \<Rightarrow> string) \<Rightarrow> json \<Rightarrow> load_error + entry list" where
  "load_entries_from_file uuid4 raw =
     (case entries_of raw of Inl err \<Rightarrow> Inl err | Inr es \<Rightarrow> assign_uids uuid4 0 es)"

text \<open>
  The keys of \<open>{e['uid']: e for e in entries}\<close> in the order of the dictionary: each uid
  once, at the place of its first occurrence. After \<open>setdefault\<close> every entry has a
  \<open>uid\<close>; the form works with uids that are strings.
\<close>

definition entry_uid :: "entry \<Rightarrow> string" where
  "entry_uid e = str_of (case map_of e ''uid'' of None \<Rightarrow> JNull | Some v \<Rightarrow> v)"

definition dict_keys :: "'a list \<Rightarrow> 'a list" where
  "dict_keys ks = rev (remdups (rev ks))"

text \<open>
  The state after a successful upload: \<open>entries_by_uid\<close> (a later entry replaces an
  earlier one with the same uid), \<open>uids\<close> and \<open>current_uid = uids[0]\<close>. Without entries the
  script stops before the form, and there is no state of the form.
\<close>

definition initial_state :: "entry list \<Rightarrow> app_state option" where
  "initial_state entries =
     (let us = dict_keys (map entry_uid entries)
      in case us of
           [] \<Rightarrow> None
         | u # _ \<Rightarrow>
             Some \<lparr>session = Map.empty,
                   entries_by_uid = map_of (rev (map (\<lambda>e. (entry_uid e, e)) entries)),
                   uids = us, current_uid = u\<rparr>)"

text \<open>
  For the statements about the loaders: an entry without its \<open>uid\<close> field, and whether an
  element of the dataset brings a \<open>uid\<close> of its own.
\<close>

definition without_uid :: "entry \<Rightarrow> entry" where
  "without_uid e = filter (\<lambda>kv. fst kv \<noteq> ''uid'') e"

definition carries_uid :: "json \<Rightarrow> bool" where
  "carries_uid e = (case e of JObj d \<Rightarrow> map_of d ''uid'' \<noteq> None | _ \<Rightarrow> True)"

text \<open>A dataset of one entry without uid, and one whose entry has the uid \<open>x\<close>.\<close>

definition dog_dataset :: json where
  "dog_dataset = JArr [JObj [(''entity_id'', JStr ''Dog'')]]"

definition cat_dataset :: json where
  "cat_dataset = JArr [JObj [(''uid'', JStr ''x''), (''entity_id'', JStr ''Cat'')]]"

section \<open>Example states\<close>

text \<open>
  A dataset of two entries with the uids \<open>0\<close> and \<open>1\<close>, the first one selected, and some
  session states of its form.
\<close>

definition demo_state :: "session_state \<Rightarrow> app_state" where
  "demo_state ss =
     \<lparr>session = ss,
      entries_by_uid = [''0'' \<mapsto> [(''entity_id'', JStr ''Dog'')],
                        ''1'' \<mapsto> [(''entity_id'', JStr ''Cat'')]],
      uids = [''0'', ''1''], current_uid = ''0''\<rparr>"

text \<open>Only the box \<open>Other:\<close> is checked, and its text is two spaces.\<close>

definition other_only :: session_state where
  "other_only = [''q1_0_other'' \<mapsto> JBool True, ''q1_0_other_text'' \<mapsto> JStr ''  '']"

text \<open>
  One issue is checked and question 2 is answered; the radio of question 3 has not been
  touched.
\<close>

definition q2_answered :: session_state where
  "q2_answered = [''q1_0_style'' \<mapsto> JBool True, ''q2'' \<mapsto> JStr ''Accept'']"

text \<open>The same, with \<open>If No, which section:\<close> chosen and a section typed in.\<close>

definition q3_no :: session_state where
  "q3_no = [''q1_0_style'' \<mapsto> JBool True, ''q2'' \<mapsto> JStr ''Accept'',
            ''q3'' \<mapsto> JStr ''If No, which section:'', ''q3_section'' \<mapsto> JStr ''History'']"

text \<open>
  The session state after a review of the entry \<open>uid\<close> with the answer \<open>Yes\<close> has been
  submitted.
\<close>

definition submitted :: "string \<Rightarrow> session_state" where
  "submitted uid =
     [''q1_'' @ uid @ ''_style'' \<mapsto> JBool True,
      ''q1'' \<mapsto> JArr [JStr ''Stylistic/clarity: Phrasing redundant or tone is too informal''],
      ''q2'' \<mapsto> JStr ''Accept'', ''q3'' \<mapsto> JStr ''Yes'', ''review_submitted'' \<mapsto> JBool True]"


section \<open>The diff of the spec's scenario\<close>

lemma dog_split:
  "str_split ''The dog is loyal'' = [''The'', ''dog'', ''is'', ''loyal'']"
  "str_split ''The dog is very loyal and friendly'' =
     [''The'', ''dog'', ''is'', ''very'', ''loyal'', ''and'', ''friendly'']"
  by code_simp+

lemma dog_opcodes:
  "get_opcodes [''The'', ''dog'', ''is'', ''loyal'']
     [''The'', ''dog'', ''is'', ''very'', ''loyal'', ''and'', ''friendly''] =
   [(''equal'', 0, 3, 0, 3), (''insert'', 3, 3, 3, 4), (''equal'', 3, 4, 4, 5),
    (''insert'', 4, 4, 5, 7)]"
  by code_simp

lemma dog_highlight:
  "get_text_diff_v2_highlight ''The dog is loyal'' ''The dog is very loyal and friendly'' =
     (''The dog is loyal'', ''The dog is <ins>very</ins> loyal <ins>and friendly</ins>'')"
  by code_simp

text \<open>
  Claim C1, as the code has it: for \<open>original = "The dog is loyal"\<close> and
  \<open>updated = "The dog is very loyal and friendly"\<close> the matcher finds the word \<open>loyal\<close> in
  both texts, so the opcodes are equal \<open>The dog is\<close>, insert \<open>very\<close>, equal \<open>loyal\<close>, insert
  \<open>and friendly\<close>. The first output is \<open>The dog is loyal\<close> with no marker and the second is
  \<open>The dog is <ins>very</ins> loyal <ins>and friendly</ins>\<close>.
\<close>

theorem C1_dog_scenario:
  "get_opcodes (str_split ''The dog is loyal'') (str_split ''The dog is very loyal and friendly'') =
     [(''equal'', 0, 3, 0, 3), (''insert'', 3, 3, 3, 4), (''equal'', 3, 4, 4, 5),
      (''insert'', 4, 4, 5, 7)] \<and>
   get_text_diff_v2_highlight ''The dog is loyal'' ''The dog is very loyal and friendly'' =
     (''The dog is loyal'', ''The dog is <ins>very</ins> loyal <ins>and friendly</ins>'')"
  by (simp only: dog_split dog_opcodes dog_highlight)

text \<open>
  Claim C1 as stated fails: the opcodes are not equal \<open>The dog is\<close> followed by one replace
  of \<open>loyal\<close>, and the outputs are not \<open>The dog is <del>loyal</del>\<close> and
  \<open>The dog is <ins>very loyal and friendly</ins>\<close>.
\<close>

theorem C1_dog_counterexample:
  "get_opcodes (str_split ''The dog is loyal'') (str_split ''The dog is very loyal and friendly'') \<noteq>
     [(''equal'', 0, 3, 0, 3), (''replace'', 3, 4, 3, 7)] \<and>
   get_text_diff_v2_highlight ''The dog is loyal'' ''The dog is very loyal and friendly'' \<noteq>
     (''The dog is <del>loyal</del>'', ''The dog is <ins>very loyal and friendly</ins>'')"
  by (simp add: dog_split dog_opcodes dog_highlight)

section \<open>The form: what a run does\<close>

lemma setdefault_apply:
  "setdefault k v ss k' = (if k' = k \<and> ss k = None then Some v else ss k')"
  by (auto simp: setdefault_def split: option.splits)

lemma ss_get_setdefault:
  "ss_get (setdefault k v ss) k' = (if k' = k \<and> ss k = None then v else ss_get ss k')"
  by (auto simp: ss_get_def setdefault_apply)

lemma truthy_st_checkbox [simp]:
  "truthy (ss_get (st_checkbox key ss) k) = truthy (ss_get ss k)"
  by (auto simp: st_checkbox_def ss_get_setdefault) (simp add: ss_get_def)

lemma str_of_st_checkbox [simp]:
  "str_of (ss_get (st_checkbox key ss) k) = str_of (ss_get ss k)"
  by (auto simp: st_checkbox_def ss_get_setdefault) (simp add: ss_get_def)

lemma st_checkbox_other_key:
  "k \<noteq> key \<Longrightarrow> st_checkbox key ss k = ss k"
  by (simp add: st_checkbox_def setdefault_apply)

lemma q1_checkboxes_selected:
  "fst (snd (q1_checkboxes pre opts (ss, sel, shw))) =
     sel @ map snd (filter (\<lambda>p. truthy (ss_get ss (pre @ ''_'' @ fst p))) opts)"
proof (induction opts arbitrary: ss sel shw)
  case Nil
  then show ?case by simp
next
  case (Cons p opts)
  obtain subkey label where p: "p = (subkey, label)" by (cases p)
  show ?case
    unfolding p by (simp add: Let_def Cons.IH)
qed

lemma q1_checkboxes_show:
  "snd (snd (q1_checkboxes pre opts (ss, sel, shw))) =
     (shw \<or> (''other'' \<in> fst ` set opts \<and> truthy (ss_get ss (pre @ ''_other''))))"
proof (induction opts arbitrary: ss sel shw)
  case Nil
  then show ?case by simp
next
  case (Cons p opts)
  obtain subkey label where p: "p = (subkey, label)" by (cases p)
  show ?case
    unfolding p by (auto simp add: Let_def Cons.IH)
qed

lemma q1_checkboxes_view:
  "truthy (ss_get (fst (q1_checkboxes pre opts (ss, sel, shw))) k) = truthy (ss_get ss k)"
  "str_of (ss_get (fst (q1_checkboxes pre opts (ss, sel, shw))) k) = str_of (ss_get ss k)"
proof (induction opts arbitrary: ss sel shw)
  case Nil
  { case 1 show ?case by simp }
  { case 2 show ?case by simp }
next
  case (Cons p opts)
  obtain subkey label where p: "p = (subkey, label)" by (cases p)
  { case 1 show ?case unfolding p by (simp add: Let_def Cons.IH) }
  { case 2 show ?case unfolding p by (simp add: Let_def Cons.IH) }
qed

lemma q1_checkboxes_frame:
  "\<not> prefix (pre @ ''_'') k \<Longrightarrow> fst (q1_checkboxes pre opts (ss, sel, shw)) k = ss k"
proof (induction opts arbitrary: ss sel shw)
  case Nil
  then show ?case by simp
next
  case (Cons p opts)
  obtain subkey label where p: "p = (subkey, label)" by (cases p)
  have ne: "k \<noteq> pre @ ''_'' @ subkey"
    using Cons.prems by (auto simp: prefix_def)
  have "st_checkbox (pre @ ''_'' @ subkey) ss k = ss k"
    by (rule st_checkbox_other_key[OF ne])
  then show ?case
    unfolding p using Cons.prems by (simp add: Let_def Cons.IH)
qed

lemma q1_section_selected:
  "snd (q1_section selection ss) =
     map snd (filter (\<lambda>p. q1_checked ss selection (fst p)) q1_options) @
     (if q1_checked ss selection ''other'' \<and> str_strip (q1_other_text ss selection) \<noteq> []
      then [''Other (Please specify reason below): '' @ str_strip (q1_other_text ss selection)]
      else [])"
proof -
  define pre where "pre = q1_key_prefix selection"
  obtain ss1 sel shw where loop: "q1_checkboxes pre q1_options (ss, [], False) = (ss1, sel, shw)"
    by (cases "q1_checkboxes pre q1_options (ss, [], False)") auto
  have sel: "sel = map snd (filter (\<lambda>p. q1_checked ss selection (fst p)) q1_options)"
    using q1_checkboxes_selected[of pre q1_options ss "[]" False] loop
    by (simp add: q1_checked_def pre_def)
  have shw: "shw = q1_checked ss selection ''other''"
    using q1_checkboxes_show[of pre q1_options ss "[]" False] loop
    by (simp add: q1_checked_def pre_def q1_options_def)
  have otext: "str_of (ss_get (st_text_input (pre @ ''_other_text'') ss1) (pre @ ''_other_text'')) =
             q1_other_text ss selection"
    using q1_checkboxes_view(2)[of pre q1_options ss "[]" False "pre @ ''_other_text''"] loop
    by (auto simp: q1_other_text_def pre_def st_text_input_def ss_get_setdefault)
       (simp add: ss_get_def)
  show ?thesis
    unfolding q1_section_def pre_def[symmetric] loop
    using sel shw otext by (simp add: Let_def)
qed

lemma q1_section_q1:
  "fst (q1_section selection ss) ''q1'' =
     Some (if snd (q1_section selection ss) \<noteq> [] then JArr (map JStr (snd (q1_section selection ss)))
           else JNull)"
  unfolding q1_section_def by (simp add: Let_def split: prod.splits)

lemma q1_section_frame:
  assumes "\<not> prefix ''q1'' k"
  shows "fst (q1_section selection ss) k = ss k"
proof -
  define pre where "pre = q1_key_prefix selection"
  obtain ss1 sel shw where loop: "q1_checkboxes pre q1_options (ss, [], False) = (ss1, sel, shw)"
    by (cases "q1_checkboxes pre q1_options (ss, [], False)") auto
  have np: "\<not> prefix (pre @ ''_'') k" "k \<noteq> pre @ ''_other_text''" "k \<noteq> ''q1''"
    using assms by (auto simp: pre_def q1_key_prefix_def prefix_def)
  have "ss1 k = ss k"
    using q1_checkboxes_frame[OF np(1), of q1_options ss "[]" False] loop by simp
  then show ?thesis
    unfolding q1_section_def pre_def[symmetric] loop
    using np by (simp add: Let_def st_text_input_def setdefault_apply)
qed

lemma init_question_states_frame:
  "k \<noteq> ''q1'' \<Longrightarrow> k \<noteq> ''q3'' \<Longrightarrow> init_question_states ss k = ss k"
  by (simp add: init_question_states_def setdefault_apply)

lemma init_question_states_q3:
  "init_question_states ss ''q3'' = Some (ss_get ss ''q3'')"
  by (simp add: init_question_states_def setdefault_apply ss_get_def split: option.splits)

lemma init_question_states_view:
  "truthy (ss_get (init_question_states ss) k) = truthy (ss_get ss k)"
  "str_of (ss_get (init_question_states ss) k) = str_of (ss_get ss k)"
  by (simp_all add: init_question_states_def ss_get_def setdefault_apply split: option.splits)

lemma q1_checked_init [simp]:
  "q1_checked (init_question_states ss) selection subkey = q1_checked ss selection subkey"
  by (simp add: q1_checked_def init_question_states_view)

lemma q1_other_text_init [simp]:
  "q1_other_text (init_question_states ss) selection = q1_other_text ss selection"
  by (simp add: q1_other_text_def init_question_states_view)

lemma session_at_submit_q1:
  "session_at_submit st ''q1'' =
     fst (q1_section (current_uid st) (init_question_states (session st))) ''q1''"
  by (simp add: session_at_submit_def Let_def st_radio_def st_text_input_def setdefault_apply)

lemma session_at_submit_q2:
  "session_at_submit st ''q2'' = Some (ss_get (session st) ''q2'')"
  by (simp add: session_at_submit_def Let_def st_radio_def st_text_input_def setdefault_apply
      q1_section_frame init_question_states_frame ss_get_def split: option.splits)

lemma session_at_submit_q3:
  "session_at_submit st ''q3'' = Some (ss_get (session st) ''q3'')"
  by (simp add: session_at_submit_def Let_def st_radio_def st_text_input_def setdefault_apply
      q1_section_frame init_question_states_q3)

lemma session_at_submit_q3_section:
  "session_at_submit st ''q3_section'' =
     (if ss_get (session st) ''q3'' = JStr ''If No, which section:''
      then Some (case session st ''q3_section'' of None \<Rightarrow> JStr [] | Some v \<Rightarrow> v)
      else session st ''q3_section'')"
  by (simp add: session_at_submit_def Let_def st_radio_def st_text_input_def setdefault_apply
      q1_section_frame init_question_states_q3 init_question_states_frame ss_get_setdefault
      ss_get_def split: option.splits)

lemma session_at_submit_review_submitted:
  "session_at_submit st ''review_submitted'' = session st ''review_submitted''"
  by (simp add: session_at_submit_def Let_def st_radio_def st_text_input_def setdefault_apply
      q1_section_frame init_question_states_frame)

lemma entry_ready_prompts:
  assumes "entry_ready st entry"
  obtains v0 v1 v2 where "entries_by_uid st (current_uid st) = Some entry"
    "subscript (q_texts entry) 0 = Inr v0" "subscript (q_texts entry) 1 = Inr v1"
    "subscript (q_texts entry) 2 = Inr v2"
proof -
  have "\<exists>v. subscript (q_texts entry) 0 = Inr v" "\<exists>v. subscript (q_texts entry) 1 = Inr v"
    "\<exists>v. subscript (q_texts entry) 2 = Inr v"
    using assms unfolding entry_ready_def
    by (cases "subscript (q_texts entry) 0"; cases "subscript (q_texts entry) 1";
        cases "subscript (q_texts entry) 2"; simp)+
  then show ?thesis using that assms unfolding entry_ready_def by blast
qed

lemma form_run_q1_unanswered:
  assumes "entry_ready st entry"
    and "snd (q1_section (current_uid st) (init_question_states (session st))) = []"
  shows "form_run upload clicked st =
     stopped (st\<lparr>session := fst (q1_section (current_uid st) (init_question_states (session st)))\<rparr>)
       Finished False False"
proof -
  from assms(1) obtain v0 v1 v2 where e: "entries_by_uid st (current_uid st) = Some entry"
    and v: "subscript (q_texts entry) 0 = Inr v0"
    by (rule entry_ready_prompts)
  have "\<not> truthy (ss_get (fst (q1_section (current_uid st) (init_question_states (session st)))) ''q1'')"
    using assms(2) by (simp add: ss_get_def q1_section_q1)
  then show ?thesis
    unfolding form_run_def using v by (simp add: e Let_def)
qed

lemma form_run_q2_unanswered:
  assumes "entry_ready st entry"
    and "snd (q1_section (current_uid st) (init_question_states (session st))) \<noteq> []"
    and "\<not> truthy (ss_get (session st) ''q2'')"
  shows "form_run upload clicked st =
     stopped (st\<lparr>session := st_radio [''Accept'', ''Accept w/ Revision'', ''Reject''] None ''q2''
                 (fst (q1_section (current_uid st) (init_question_states (session st))))\<rparr>)
       Finished True False"
proof -
  define ss1 where "ss1 = fst (q1_section (current_uid st) (init_question_states (session st)))"
  define ss2 where "ss2 = st_radio [''Accept'', ''Accept w/ Revision'', ''Reject''] None ''q2'' ss1"
  from assms(1) obtain v0 v1 v2 where e: "entries_by_uid st (current_uid st) = Some entry"
    and v: "subscript (q_texts entry) 0 = Inr v0" "subscript (q_texts entry) 1 = Inr v1"
    by (rule entry_ready_prompts)
  have q1: "truthy (ss_get ss1 ''q1'')"
    using assms(2) unfolding ss1_def by (simp add: ss_get_def q1_section_q1)
  have "ss2 ''q2'' = Some (ss_get (session st) ''q2'')"
    unfolding ss2_def ss1_def
    by (simp add: st_radio_def setdefault_apply q1_section_frame init_question_states_frame
        ss_get_def split: option.splits)
  then have q2: "\<not> truthy (ss_get ss2 ''q2'')"
    using assms(3) by (simp add: ss_get_def)
  show ?thesis
    unfolding form_run_def ss1_def[symmetric] Let_def
    using q1 q2 v by (simp add: e ss1_def[symmetric] ss2_def[symmetric])
qed

lemma form_run_answered:
  assumes "entry_ready st entry" "q1_q2_answered st"
  shows "form_run upload clicked st =
     (if clicked = Some Submit_review
      then (case submit_review upload entry (st\<lparr>session := session_at_submit st\<rparr>) of
              (st5, ups, returned) \<Rightarrow>
                if returned then next_step clicked st5 ups True
                else \<lparr>final = st5, outcome = Raised UploadError, q2_shown = True,
                      q3_shown = True, next_shown = False, uploads = ups,
                      success_shown = False\<rparr>)
      else next_step clicked (st\<lparr>session := session_at_submit st\<rparr>) [] False)"
proof -
  define ss1 where "ss1 = fst (q1_section (current_uid st) (init_question_states (session st)))"
  define ss2 where "ss2 = st_radio [''Accept'', ''Accept w/ Revision'', ''Reject''] None ''q2'' ss1"
  from assms(1) obtain v0 v1 v2 where e: "entries_by_uid st (current_uid st) = Some entry"
    and v: "subscript (q_texts entry) 0 = Inr v0" "subscript (q_texts entry) 1 = Inr v1"
      "subscript (q_texts entry) 2 = Inr v2"
    by (rule entry_ready_prompts)
  have q1: "truthy (ss_get ss1 ''q1'')"
    using assms(2) unfolding q1_q2_answered_def ss1_def
    by (simp add: ss_get_def q1_section_q1)
  have "ss2 ''q2'' = Some (ss_get (session st) ''q2'')"
    unfolding ss2_def ss1_def
    by (simp add: st_radio_def setdefault_apply q1_section_frame init_question_states_frame
        ss_get_def split: option.splits)
  then have q2: "truthy (ss_get ss2 ''q2'')"
    using assms(2) unfolding q1_q2_answered_def by (simp add: ss_get_def)
  show ?thesis
    unfolding form_run_def session_at_submit_def ss1_def[symmetric] Let_def
    using q1 q2 v by (simp add: e ss1_def[symmetric] ss2_def[symmetric])
qed

lemma next_step_shown [simp]:
  "q2_shown (next_step clicked st ups s)" "q3_shown (next_step clicked st ups s)"
  "uploads (next_step clicked st ups s) = ups"
  "success_shown (next_step clicked st ups s) = s"
  by (simp_all add: next_step_def Let_def split: sum.splits option.splits)

lemma q2_shown_iff:
  assumes "entry_ready st entry"
  shows "q2_shown (form_run upload clicked st) \<longleftrightarrow>
         snd (q1_section (current_uid st) (init_question_states (session st))) \<noteq> []"
proof (cases "snd (q1_section (current_uid st) (init_question_states (session st))) = []")
  case True
  then show ?thesis
    by (simp add: form_run_q1_unanswered[OF assms True] stopped_def)
next
  case False
  show ?thesis
  proof (cases "truthy (ss_get (session st) ''q2'')")
    case True
    then have "q1_q2_answered st" using False by (simp add: q1_q2_answered_def)
    then show ?thesis
      using False by (simp add: form_run_answered[OF assms] split: prod.splits)
  next
    case nq2: False
    show ?thesis
      using False by (simp add: form_run_q2_unanswered[OF assms False nq2] stopped_def)
  qed
qed

section \<open>Question 1 and the box Other\<close>

text \<open>
  Claim C2, as the code has it: when \<open>Other:\<close> is the only box checked and its text is
  empty after trimming, the empty text adds no issue of its own, but the checked box
  does: the selected issues are exactly the label \<open>Other:\<close>, \<open>q1\<close> is set to that list,
  and question 2 is rendered.
\<close>

theorem C2_only_other_checked:
  assumes "entry_ready st entry"
    and "\<forall>subkey \<in> set (map fst q1_options).
           q1_checked (session st) (current_uid st) subkey \<longleftrightarrow> subkey = ''other''"
    and "str_strip (q1_other_text (session st) (current_uid st)) = []"
  shows "snd (q1_section (current_uid st) (init_question_states (session st))) = [''Other:''] \<and>
         fst (q1_section (current_uid st) (init_question_states (session st))) ''q1'' =
           Some (JArr [JStr ''Other:'']) \<and>
         q2_shown (form_run upload clicked st)"
proof -
  have sel: "snd (q1_section (current_uid st) (init_question_states (session st))) = [''Other:'']"
    using assms(2,3) by (simp add: q1_section_selected q1_options_def)
  then show ?thesis
    using q2_shown_iff[OF assms(1)] by (simp add: q1_section_q1)
qed

theorem C2_only_other_checked_witness:
  "snd (q1_section ''0'' (init_question_states other_only)) = [''Other:''] \<and>
   fst (q1_section ''0'' (init_question_states other_only)) ''q1'' = Some (JArr [JStr ''Other:'']) \<and>
   q2_shown (form_run (\<lambda>p e. True) None (demo_state other_only))"
proof -
  have h1: "entry_ready (demo_state other_only) [(''entity_id'', JStr ''Dog'')]"
    by code_simp
  have h2: "\<forall>subkey \<in> set (map fst q1_options).
      q1_checked (session (demo_state other_only)) (current_uid (demo_state other_only)) subkey
        \<longleftrightarrow> subkey = ''other''"
    by code_simp
  have h3: "str_strip (q1_other_text (session (demo_state other_only))
      (current_uid (demo_state other_only))) = []"
    by code_simp
  have s: "session (demo_state other_only) = other_only" "current_uid (demo_state other_only) = ''0''"
    by (simp_all add: demo_state_def)
  show ?thesis
    using C2_only_other_checked[OF h1 h2 h3, of "\<lambda>p e. True" None] by (simp add: s)
qed

text \<open>
  Claim C2 as stated fails: with only \<open>Other:\<close> checked and a text of two spaces, the
  selected issues are not empty, \<open>q1\<close> is not \<open>None\<close>, and question 2 is rendered.
\<close>

theorem C2_other_counterexample:
  "filter (q1_checked other_only ''0'') (map fst q1_options) = [''other''] \<and>
   str_strip (q1_other_text other_only ''0'') = [] \<and>
   snd (q1_section ''0'' (init_question_states other_only)) \<noteq> [] \<and>
   ss_get (session (final (form_run (\<lambda>p e. True) None (demo_state other_only)))) ''q1'' \<noteq> JNull \<and>
   q2_shown (form_run (\<lambda>p e. True) None (demo_state other_only))"
  by code_simp

section \<open>The review record, submission and navigation\<close>

lemma review_of_q3:
  "map_of (review_of ss) ''q3'' = Some (ss_get ss ''q3'')"
  "map_of (review_of ss) ''q3_section'' = Some (ss_get ss ''q3_section'')"
  by (simp_all add: review_of_def)

lemma uploads_submit:
  assumes "entry_ready st entry" "q1_q2_answered st"
  shows "uploads (form_run upload (Some Submit_review) st) =
     [(''test/'' @ current_uid st @ ''.json'',
       dict_set ''review'' (JObj (review_of (session_at_submit st))) entry)]"
  by (simp add: form_run_answered[OF assms] submit_review_def Let_def)

lemma uploads_no_submit:
  assumes "entry_ready st entry" "q1_q2_answered st" "clicked \<noteq> Some Submit_review"
  shows "uploads (form_run upload clicked st) = []"
  using assms(3) by (simp add: form_run_answered[OF assms(1,2)])

text \<open>
  Claim C3, as the code has it: the review assembled at submission is uploaded with the
  entry, its \<open>q3\<close> field is the value of the radio of question 3, which is \<open>None\<close> (no
  option selected), \<open>Yes\<close> or \<open>If No, which section:\<close> and never \<open>No\<close>, and it always has
  the key \<open>q3_section\<close>: the string of the text input when \<open>q3\<close> is
  \<open>If No, which section:\<close>, and otherwise what the session state holds under
  \<open>q3_section\<close> (\<open>None\<close> when nothing).
\<close>

theorem C3_review_record:
  assumes "entry_ready st entry" "q1_q2_answered st" "q3_from_widgets (session st)"
  shows "uploads (form_run upload (Some Submit_review) st) =
           [(''test/'' @ current_uid st @ ''.json'',
             dict_set ''review'' (JObj (review_of (session_at_submit st))) entry)] \<and>
         map_of (review_of (session_at_submit st)) ''q3'' = Some (ss_get (session st) ''q3'') \<and>
         ss_get (session st) ''q3'' \<in> {JNull, JStr ''Yes'', JStr ''If No, which section:''} \<and>
         map_of (review_of (session_at_submit st)) ''q3_section'' =
           Some (if ss_get (session st) ''q3'' = JStr ''If No, which section:''
                 then JStr (str_of (ss_get (session st) ''q3_section''))
                 else ss_get (session st) ''q3_section'')"
proof -
  have a: "ss_get (session st) ''q3'' \<in> {JNull, JStr ''Yes'', JStr ''If No, which section:''}"
    using assms(3) by (auto simp: q3_from_widgets_def ss_get_def)
  have b: "map_of (review_of (session_at_submit st)) ''q3_section'' =
           Some (if ss_get (session st) ''q3'' = JStr ''If No, which section:''
                 then JStr (str_of (ss_get (session st) ''q3_section''))
                 else ss_get (session st) ''q3_section'')"
    using assms(3)
    by (auto simp: review_of_q3 ss_get_def session_at_submit_q3_section q3_from_widgets_def
        split: option.splits)
  show ?thesis
    using a b uploads_submit[OF assms(1,2)]
    by (simp add: review_of_q3 ss_get_def session_at_submit_q3)
qed

lemma demo_fields [simp]:
  "session (demo_state ss) = ss" "current_uid (demo_state ss) = ''0''"
  "uids (demo_state ss) = [''0'', ''1'']"
  by (simp_all add: demo_state_def)

text \<open>
  An instance of C3: \<open>If No, which section:\<close> chosen and the section \<open>History\<close> typed.
\<close>

theorem C3_review_record_witness:
  "uploads (form_run (\<lambda>p e. True) (Some Submit_review) (demo_state q3_no)) =
     [(''test/0.json'',
       [(''entity_id'', JStr ''Dog''),
        (''review'', JObj (review_of (session_at_submit (demo_state q3_no))))])] \<and>
   map_of (review_of (session_at_submit (demo_state q3_no))) ''q3'' =
     Some (JStr ''If No, which section:'') \<and>
   map_of (review_of (session_at_submit (demo_state q3_no))) ''q3_section'' =
     Some (JStr ''History'')"
proof -
  have h1: "entry_ready (demo_state q3_no) [(''entity_id'', JStr ''Dog'')]"
    by code_simp
  have h2: "q1_q2_answered (demo_state q3_no)"
    by code_simp
  have h3: "q3_from_widgets (session (demo_state q3_no))"
    by code_simp
  have v: "ss_get q3_no ''q3'' = JStr ''If No, which section:''"
    "ss_get q3_no ''q3_section'' = JStr ''History''"
    by code_simp+
  show ?thesis
    using C3_review_record[OF h1 h2 h3, of "\<lambda>p e. True"] by (simp add: v)
qed

text \<open>
  Claim C3 as stated fails: the submitted review of the state \<open>q3_no\<close> has a \<open>q3\<close> that
  is neither \<open>Yes\<close> nor \<open>No\<close>, and the one of the state \<open>q2_answered\<close> has \<open>q3 = None\<close>
  and a \<open>q3_section\<close> key all the same.
\<close>

theorem C3_q3_counterexample:
  "map_of (snd (hd (uploads (form_run (\<lambda>p e. True) (Some Submit_review) (demo_state q3_no)))))
     ''review'' =
     Some (JObj [(''q1'', JArr [JStr ''Stylistic/clarity: Phrasing redundant or tone is too informal'']),
                 (''q2'', JStr ''Accept''), (''q3'', JStr ''If No, which section:''),
                 (''q3_section'', JStr ''History'')]) \<and>
   JStr ''If No, which section:'' \<noteq> JStr ''Yes'' \<and> JStr ''If No, which section:'' \<noteq> JStr ''No'' \<and>
   map_of (snd (hd (uploads (form_run (\<lambda>p e. True) (Some Submit_review) (demo_state q2_answered)))))
     ''review'' =
     Some (JObj [(''q1'', JArr [JStr ''Stylistic/clarity: Phrasing redundant or tone is too informal'']),
                 (''q2'', JStr ''Accept''), (''q3'', JNull), (''q3_section'', JNull)])"
  by code_simp

text \<open>
  Claim C7: when the upload raises during a submission of a review that was not
  submitted before, the run ends with that exception (which Streamlit reports on the
  page), \<open>st.success\<close> does not run, \<open>review_submitted\<close> stays unset and the next-step
  buttons are not shown, the session state is the one a run without a click leaves
  (the answers to the questions 1 to 3 are still there), and the upload was tried once.
  A run that the submit button did not start makes no upload.
\<close>

theorem C7_upload_failure:
  assumes "entry_ready st entry" "q1_q2_answered st"
    and "session st ''review_submitted'' = None"
    and "\<not> upload (''test/'' @ current_uid st @ ''.json'')
              (dict_set ''review'' (JObj (review_of (session_at_submit st))) entry)"
  shows "outcome (form_run upload (Some Submit_review) st) = Raised UploadError \<and>
         \<not> success_shown (form_run upload (Some Submit_review) st) \<and>
         \<not> next_shown (form_run upload (Some Submit_review) st) \<and>
         session (final (form_run upload (Some Submit_review) st)) ''review_submitted'' = None \<and>
         session (final (form_run upload (Some Submit_review) st)) =
           session (final (form_run upload None st)) \<and>
         session (final (form_run upload (Some Submit_review) st)) ''q1'' =
           Some (JArr (map JStr (snd (q1_section (current_uid st)
                                        (init_question_states (session st)))))) \<and>
         session (final (form_run upload (Some Submit_review) st)) ''q2'' = session st ''q2'' \<and>
         session (final (form_run upload (Some Submit_review) st)) ''q3'' =
           Some (ss_get (session st) ''q3'') \<and>
         length (uploads (form_run upload (Some Submit_review) st)) = 1 \<and>
         uploads (form_run upload None st) = [] \<and>
         uploads (form_run upload (Some Stay) st) = [] \<and>
         uploads (form_run upload (Some Go_next) st) = []"
proof -
  let ?r = "form_run upload (Some Submit_review) st"
  have r: "?r = \<lparr>final = st\<lparr>session := session_at_submit st,
                     entries_by_uid := (entries_by_uid st)(current_uid st \<mapsto>
                       dict_set ''review'' (JObj (review_of (session_at_submit st))) entry)\<rparr>,
                   outcome = Raised UploadError, q2_shown = True, q3_shown = True,
                   next_shown = False,
                   uploads = [(''test/'' @ current_uid st @ ''.json'',
                     dict_set ''review'' (JObj (review_of (session_at_submit st))) entry)],
                   success_shown = False\<rparr>"
    using assms(4) by (simp add: form_run_answered[OF assms(1,2)] submit_review_def Let_def)
  have nosub: "\<not> truthy (ss_get (session_at_submit st) ''review_submitted'')"
    using assms(3) by (simp add: ss_get_def session_at_submit_review_submitted)
  have n: "form_run upload None st =
      \<lparr>final = st\<lparr>session := session_at_submit st\<rparr>, outcome = Finished, q2_shown = True,
        q3_shown = True, next_shown = False, uploads = [], success_shown = False\<rparr>"
    using nosub by (simp add: form_run_answered[OF assms(1,2)] next_step_def Let_def)
  have q1: "session_at_submit st ''q1'' =
      Some (JArr (map JStr (snd (q1_section (current_uid st) (init_question_states (session st))))))"
    using assms(2) by (simp add: session_at_submit_q1 q1_section_q1 q1_q2_answered_def)
  have q2: "session_at_submit st ''q2'' = session st ''q2''"
    using assms(2)
    by (cases "session st ''q2''") (simp_all add: session_at_submit_q2 ss_get_def q1_q2_answered_def)
  show ?thesis
    unfolding r n
    using assms(3) q1 q2 uploads_no_submit[OF assms(1,2), of "Some Stay" upload]
      uploads_no_submit[OF assms(1,2), of "Some Go_next" upload]
    by (simp add: session_at_submit_review_submitted session_at_submit_q3)
qed

text \<open>
  An instance of C7: the state \<open>q2_answered\<close> and a sink that always fails.
\<close>

theorem C7_upload_failure_witness:
  "outcome (form_run (\<lambda>p e. False) (Some Submit_review) (demo_state q2_answered)) =
     Raised UploadError \<and>
   \<not> success_shown (form_run (\<lambda>p e. False) (Some Submit_review) (demo_state q2_answered)) \<and>
   session (final (form_run (\<lambda>p e. False) (Some Submit_review) (demo_state q2_answered)))
     ''review_submitted'' = None \<and>
   session (final (form_run (\<lambda>p e. False) (Some Submit_review) (demo_state q2_answered))) ''q2'' =
     Some (JStr ''Accept'') \<and>
   length (uploads (form_run (\<lambda>p e. False) (Some Submit_review) (demo_state q2_answered))) = 1 \<and>
   uploads (form_run (\<lambda>p e. False) None (demo_state q2_answered)) = []"
proof -
  have h1: "entry_ready (demo_state q2_answered) [(''entity_id'', JStr ''Dog'')]"
    by code_simp
  have h2: "q1_q2_answered (demo_state q2_answered)"
    by code_simp
  have h3: "session (demo_state q2_answered) ''review_submitted'' = None"
    by code_simp
  have h4: "\<not> (\<lambda>p e. False) (''test/'' @ current_uid (demo_state q2_answered) @ ''.json'')
      (dict_set ''review'' (JObj (review_of (session_at_submit (demo_state q2_answered))))
         [(''entity_id'', JStr ''Dog'')])"
    by simp
  have v: "q2_answered ''q2'' = Some (JStr ''Accept'')"
    by code_simp
  show ?thesis
    using C7_upload_failure[OF h1 h2 h3 h4] by (auto simp: v)
qed

text \<open>
  Claim C9, as the code has it: whenever the questions 1 and 2 are answered, the radio of
  question 3 and the submit button are rendered in the same run, so a review can be
  submitted without a choice for question 3. The radio shows what the session state
  holds under \<open>q3\<close>; the script itself has put \<open>None\<close> there before the radio is built
  (\<open>setdefault('q3', None)\<close>), so for an entry whose radio was never touched no option is
  selected, and the submitted review stores that value of \<open>q3\<close>.
\<close>

theorem C9_q3_radio:
  assumes "entry_ready st entry" "q1_q2_answered st"
  shows "q3_shown (form_run upload clicked st) \<and>
         session_at_submit st ''q3'' = Some (ss_get (session st) ''q3'') \<and>
         (session st ''q3'' = None \<longrightarrow> session_at_submit st ''q3'' = Some JNull) \<and>
         uploads (form_run upload (Some Submit_review) st) =
           [(''test/'' @ current_uid st @ ''.json'',
             dict_set ''review'' (JObj (review_of (session_at_submit st))) entry)] \<and>
         map_of (review_of (session_at_submit st)) ''q3'' = Some (ss_get (session st) ''q3'')"
proof -
  have "q3_shown (form_run upload clicked st)"
    by (simp add: form_run_answered[OF assms] split: prod.splits)
  then show ?thesis
    using uploads_submit[OF assms]
    by (simp add: session_at_submit_q3 review_of_q3 ss_get_def)
qed

text \<open>
  An instance of C9: the state \<open>q2_answered\<close>.
\<close>

theorem C9_q3_radio_witness:
  "q3_shown (form_run (\<lambda>p e. True) None (demo_state q2_answered)) \<and>
   session_at_submit (demo_state q2_answered) ''q3'' = Some JNull \<and>
   uploads (form_run (\<lambda>p e. True) (Some Submit_review) (demo_state q2_answered)) =
     [(''test/0.json'',
       [(''entity_id'', JStr ''Dog''),
        (''review'', JObj (review_of (session_at_submit (demo_state q2_answered))))])] \<and>
   map_of (review_of (session_at_submit (demo_state q2_answered))) ''q3'' = Some JNull"
proof -
  have h1: "entry_ready (demo_state q2_answered) [(''entity_id'', JStr ''Dog'')]"
    by code_simp
  have h2: "q1_q2_answered (demo_state q2_answered)"
    by code_simp
  have v: "q2_answered ''q3'' = None" "ss_get q2_answered ''q3'' = JNull"
    by code_simp+
  show ?thesis
    using C9_q3_radio[OF h1 h2, of "\<lambda>p e. True" None] by (simp add: v)
qed

text \<open>
  Claim C9 as stated fails: in the state \<open>q2_answered\<close> both questions are answered and the
  radio of question 3 is rendered, but its value is not \<open>Yes\<close>, and the review submitted
  from there has \<open>q3 = None\<close>.
\<close>

theorem C9_q3_counterexample:
  "q1_q2_answered (demo_state q2_answered) \<and>
   q3_shown (form_run (\<lambda>p e. True) None (demo_state q2_answered)) \<and>
   ss_get (session (final (form_run (\<lambda>p e. True) None (demo_state q2_answered)))) ''q3'' \<noteq>
     JStr ''Yes'' \<and>
   map_of (snd (hd (uploads (form_run (\<lambda>p e. True) (Some Submit_review) (demo_state q2_answered)))))
     ''review'' =
     Some (JObj [(''q1'', JArr [JStr ''Stylistic/clarity: Phrasing redundant or tone is too informal'']),
                 (''q2'', JStr ''Accept''), (''q3'', JNull), (''q3_section'', JNull)])"
  by code_simp

lemma list_index_nth:
  "distinct us \<Longrightarrow> k < length us \<Longrightarrow> list_index us (us ! k) = Some k"
proof (induction us arbitrary: k)
  case Nil
  then show ?case by simp
next
  case (Cons u us)
  show ?case
  proof (cases k)
    case 0
    then show ?thesis by simp
  next
    case (Suc k')
    then have "us ! k' \<in> set us" using Cons.prems by simp
    then have "u \<noteq> us ! k'" using Cons.prems by auto
    then show ?thesis using Suc Cons by simp
  qed
qed

text \<open>
  Claim C8: with \<open>N\<close> uids and the current entry at index \<open>k\<close>, the next index is
  \<open>(k + 1) mod N\<close>, which is \<open>k + 1\<close> for \<open>k < N - 1\<close> and 0 for the last entry, and the
  button \<open>Go to Next Entry\<close> (shown once the review is submitted) makes the uid at that
  index the current one.
\<close>

theorem C8_advance_to_next:
  assumes "distinct (uids st)" "k < length (uids st)" "current_uid st = uids st ! k"
    and "entry_ready st entry" "q1_q2_answered st"
    and "truthy (ss_get (session st) ''review_submitted'')"
    and "entries_by_uid st (uids st ! ((k + 1) mod length (uids st))) = Some next_entry"
    and "map_of next_entry ''entity_id'' = Some name"
  shows "next_idx (uids st) (current_uid st) = Inr ((k + 1) mod length (uids st)) \<and>
         (k < length (uids st) - 1 \<longrightarrow> next_idx (uids st) (current_uid st) = Inr (k + 1)) \<and>
         (k = length (uids st) - 1 \<longrightarrow> next_idx (uids st) (current_uid st) = Inr 0) \<and>
         outcome (form_run upload (Some Go_next) st) = Rerun \<and>
         current_uid (final (form_run upload (Some Go_next) st)) =
           uids st ! ((k + 1) mod length (uids st))"
proof -
  have n: "next_idx (uids st) (current_uid st) = Inr ((k + 1) mod length (uids st))"
    using list_index_nth[OF assms(1,2)] assms(3) by (simp add: next_idx_def)
  have sub: "truthy (ss_get (session_at_submit st) ''review_submitted'')"
    using assms(6) by (simp add: ss_get_def session_at_submit_review_submitted)
  have r: "form_run upload (Some Go_next) st =
      next_step (Some Go_next) (st\<lparr>session := session_at_submit st\<rparr>) [] False"
    by (simp add: form_run_answered[OF assms(4,5)])
  have "outcome (form_run upload (Some Go_next) st) = Rerun \<and>
        current_uid (final (form_run upload (Some Go_next) st)) =
          uids st ! ((k + 1) mod length (uids st))"
    unfolding r using n sub assms(7,8)
    by (simp add: next_step_def Let_def go_next_def)
  moreover have "k < length (uids st) - 1 \<Longrightarrow> (k + 1) mod length (uids st) = k + 1"
    by simp
  moreover have "k = length (uids st) - 1 \<Longrightarrow> (k + 1) mod length (uids st) = 0"
  proof -
    assume "k = length (uids st) - 1"
    then have "k + 1 = length (uids st)" using assms(2) by simp
    then show ?thesis by simp
  qed
  ultimately show ?thesis using n by simp
qed

text \<open>
  An instance of C8: from the last of the two entries back to the first.
\<close>

theorem C8_advance_to_next_witness:
  "next_idx [''0'', ''1''] ''1'' = Inr 0 \<and>
   outcome (form_run (\<lambda>p e. True) (Some Go_next) ((demo_state (submitted ''1''))\<lparr>current_uid := ''1''\<rparr>)) = Rerun \<and>
   current_uid (final (form_run (\<lambda>p e. True) (Some Go_next)
     ((demo_state (submitted ''1''))\<lparr>current_uid := ''1''\<rparr>))) = ''0''"
proof -
  let ?st = "(demo_state (submitted ''1''))\<lparr>current_uid := ''1''\<rparr>"
  have h1: "distinct (uids ?st)" by code_simp
  have h2: "1 < length (uids ?st)" by code_simp
  have h3: "current_uid ?st = uids ?st ! 1" by code_simp
  have h4: "entry_ready ?st [(''entity_id'', JStr ''Cat'')]" by code_simp
  have h5: "q1_q2_answered ?st" by code_simp
  have h6: "truthy (ss_get (session ?st) ''review_submitted'')" by code_simp
  have h7: "entries_by_uid ?st (uids ?st ! ((1 + 1) mod length (uids ?st))) =
      Some [(''entity_id'', JStr ''Dog'')]" by code_simp
  have h8: "map_of [(''entity_id'', JStr ''Dog'')] ''entity_id'' = Some (JStr ''Dog'')" by simp
  show ?thesis
    using C8_advance_to_next[OF h1 h2 h3 h4 h5 h6 h7 h8, of "\<lambda>p e. True"]
    by (simp add: demo_state_def)
qed

text \<open>
  Claim C4 against the code: after \<open>Go to Next Entry\<close> from a submitted review the key \<open>q2\<close>
  still holds \<open>Accept\<close> (the handler deletes keys that start with \<open>q2_\<close>, and \<open>q2\<close> does
  not), and so does the check box of the entry left; the sidebar's change of entry
  deletes both.
\<close>

theorem C4_go_next_keeps_q2:
  "outcome (form_run (\<lambda>p e. True) (Some Go_next) (demo_state (submitted ''0''))) = Rerun \<and>
   current_uid (final (form_run (\<lambda>p e. True) (Some Go_next) (demo_state (submitted ''0'')))) = ''1'' \<and>
   session (final (form_run (\<lambda>p e. True) (Some Go_next) (demo_state (submitted ''0'')))) ''q2'' =
     Some (JStr ''Accept'') \<and>
   session (final (form_run (\<lambda>p e. True) (Some Go_next) (demo_state (submitted ''0'')))) ''q1_0_style'' =
     Some (JBool True) \<and>
   session (select_entry ''1'' (demo_state (submitted ''0''))) ''q2'' = None \<and>
   session (select_entry ''1'' (demo_state (submitted ''0''))) ''q1_0_style'' = None"
  by code_simp

end
